theory Spec2Isabelle
  imports Complex_Main "HOL-Library.Multiset"
begin

section \<open>Doubles and undefined behaviour\<close>

text \<open>
  The values of type \<open>double\<close> are the elements of a type \<open>'d\<close>, and the arithmetic of
  the processor on them is a parameter of every function that computes with doubles:
  a record of the operations (\<open>+\<close>, \<open>-\<close>, \<open>*\<close>, \<open>sqrt\<close>) and of the constants the source
  writes (\<open>0.\<close>, \<open>-1.0\<close>, \<open>DBL_MAX\<close>). Nothing is assumed about rounding, overflow or
  underflow in the definitions. Where the source compares doubles, \<open>'d\<close> is a linear
  order: the doubles without NaN.
\<close>

record 'd fpu =
  fadd :: "'d \<Rightarrow> 'd \<Rightarrow> 'd"
  fsub :: "'d \<Rightarrow> 'd \<Rightarrow> 'd"
  fmul :: "'d \<Rightarrow> 'd \<Rightarrow> 'd"
  fsqrt :: "'d \<Rightarrow> 'd"
  fzero :: 'd
  fminus_one :: 'd
  DBL_MAX :: 'd

text \<open>
  What C++ leaves undefined is a value of the model: an index outside an array or a
  vector, a write outside \<open>nodeStack\<close>, an \<open>int\<close> result outside the range of \<open>int\<close>.
\<close>

datatype fault = SignedOverflow | IndexOutOfRange | StackOutOfRange

section \<open>The default metric\<close>

text \<open>
  A \<open>Point\<close> holds an array \<open>coords[DIM]\<close> of doubles; here it is the list of its
  coordinates, and \<open>DIM\<close> (a macro of a header that is not part of the sources) is a
  parameter.

  \<open>euclidean_distance\<close>: the loop assigns (\<open>total = ...\<close>) the squared difference of
  dimension \<open>i\<close> to \<open>total\<close> in every round; the root of the last value is returned.
\<close>

definition euclidean_distance :: "'d fpu \<Rightarrow> nat \<Rightarrow> 'd list \<Rightarrow> 'd list \<Rightarrow> 'd" where
  "euclidean_distance ops DIM a b =
     fsqrt ops
       (fold (\<lambda>i total. fmul ops (fsub ops (b ! i) (a ! i)) (fsub ops (b ! i) (a ! i)))
          [0..<DIM] (fzero ops))"

definition gpu_euclidean_distance :: "'d fpu \<Rightarrow> nat \<Rightarrow> 'd list \<Rightarrow> 'd list \<Rightarrow> 'd" where
  "gpu_euclidean_distance ops DIM a b =
     fsqrt ops
       (fold (\<lambda>i total. fmul ops (fsub ops (b ! i) (a ! i)) (fsub ops (b ! i) (a ! i)))
          [0..<DIM] (fzero ops))"

subsection \<open>IEEE 754 binary64 arithmetic\<close>

text \<open>
  The arithmetic of the default metric on a machine with IEEE 754 doubles, rounding to
  nearest with ties to even: the exact result is rounded to the nearest double, and to
  an infinity from \<open>2^1024 - 2^970\<close> on (half a unit in the last place above the largest
  double). Doubles have 53 significant bits and exponents from \<open>-1022\<close>; below, the
  spacing stays \<open>2^-1074\<close>. The sign of a zero is not modelled.
\<close>

datatype ieee = Finite real | PlusInfinity | MinusInfinity | NaN

definition pow2 :: "int \<Rightarrow> real" where
  "pow2 e = (if 0 \<le> e then 2 ^ nat e else 1 / 2 ^ nat (- e))"

definition round_half_even :: "real \<Rightarrow> int" where
  "round_half_even x =
     (let f = \<lfloor>x\<rfloor>
      in if x - of_int f < 1 / 2 then f
         else if 1 / 2 < x - of_int f then f + 1
         else if even f then f else f + 1)"

definition round_to_double :: "real \<Rightarrow> ieee" where
  "round_to_double x =
     (if 2 ^ 1024 - 2 ^ 970 \<le> x then PlusInfinity
      else if x \<le> - (2 ^ 1024 - 2 ^ 970) then MinusInfinity
      else if x = 0 then Finite 0
      else
        (let e = max \<lfloor>log 2 \<bar>x\<bar>\<rfloor> (- 1022);
             u = pow2 (e - 52)
         in Finite (of_int (round_half_even (x / u)) * u)))"

fun ieee_sub :: "ieee \<Rightarrow> ieee \<Rightarrow> ieee" where
  "ieee_sub (Finite x) (Finite y) = round_to_double (x - y)"
| "ieee_sub NaN y = NaN"
| "ieee_sub x NaN = NaN"
| "ieee_sub PlusInfinity PlusInfinity = NaN"
| "ieee_sub MinusInfinity MinusInfinity = NaN"
| "ieee_sub PlusInfinity y = PlusInfinity"
| "ieee_sub MinusInfinity y = MinusInfinity"
| "ieee_sub (Finite x) PlusInfinity = MinusInfinity"
| "ieee_sub (Finite x) MinusInfinity = PlusInfinity"

fun ieee_add :: "ieee \<Rightarrow> ieee \<Rightarrow> ieee" where
  "ieee_add (Finite x) (Finite y) = round_to_double (x + y)"
| "ieee_add NaN y = NaN"
| "ieee_add x NaN = NaN"
| "ieee_add PlusInfinity MinusInfinity = NaN"
| "ieee_add MinusInfinity PlusInfinity = NaN"
| "ieee_add PlusInfinity y = PlusInfinity"
| "ieee_add MinusInfinity y = MinusInfinity"
| "ieee_add (Finite x) y = y"

definition ieee_inf_times :: "bool \<Rightarrow> ieee \<Rightarrow> ieee" where
  "ieee_inf_times positive y =
     (case y of
        Finite v \<Rightarrow> if v = 0 then NaN
                    else if (0 < v) = positive then PlusInfinity else MinusInfinity
      | PlusInfinity \<Rightarrow> if positive then PlusInfinity else MinusInfinity
      | MinusInfinity \<Rightarrow> if positive then MinusInfinity else PlusInfinity
      | NaN \<Rightarrow> NaN)"

fun ieee_mul :: "ieee \<Rightarrow> ieee \<Rightarrow> ieee" where
  "ieee_mul (Finite x) (Finite y) = round_to_double (x * y)"
| "ieee_mul NaN y = NaN"
| "ieee_mul x NaN = NaN"
| "ieee_mul PlusInfinity y = ieee_inf_times True y"
| "ieee_mul MinusInfinity y = ieee_inf_times False y"
| "ieee_mul x PlusInfinity = ieee_inf_times True x"
| "ieee_mul x MinusInfinity = ieee_inf_times False x"

fun ieee_sqrt :: "ieee \<Rightarrow> ieee" where
  "ieee_sqrt (Finite x) = (if x < 0 then NaN else round_to_double (sqrt x))"
| "ieee_sqrt PlusInfinity = PlusInfinity"
| "ieee_sqrt MinusInfinity = NaN"
| "ieee_sqrt NaN = NaN"

fun ieee_fabs :: "ieee \<Rightarrow> ieee" where
  "ieee_fabs (Finite x) = Finite \<bar>x\<bar>"
| "ieee_fabs PlusInfinity = PlusInfinity"
| "ieee_fabs MinusInfinity = PlusInfinity"
| "ieee_fabs NaN = NaN"

definition ieee_ops :: "ieee fpu" where
  "ieee_ops = \<lparr> fadd = ieee_add, fsub = ieee_sub, fmul = ieee_mul, fsqrt = ieee_sqrt,
                 fzero = Finite 0, fminus_one = Finite (- 1),
                 DBL_MAX = Finite (2 ^ 1024 - 2 ^ 971) \<rparr>"

section \<open>Nodes and the tree builder\<close>

record 'd CUDA_VPNode =
  threshold :: 'd
  index :: int
  left :: int
  right :: int



text \<open>\<open>std::swap(data[lower], data[i])\<close>.\<close>

definition swap :: "'p list \<Rightarrow> nat \<Rightarrow> nat \<Rightarrow> 'p list" where
  "swap data a b = (data[a := data ! b])[b := data ! a]"





subsection \<open>The builder, range by range\<close>



subsection \<open>The shape of a built table\<close>

text \<open>The points at the positions \<open>a ..< b\<close>.\<close>

definition slice :: "'a list \<Rightarrow> nat \<Rightarrow> nat \<Rightarrow> 'a list" where
  "slice xs a b = take (b - a) (drop a xs)"


text \<open>
  The addressing scheme: the node of the range \<open>lower ..< upper\<close> is in slot \<open>lower\<close> and
  records \<open>lower\<close> as its index; a range of one point has the children \<open>ld\<close> and \<open>rd\<close> of
  the default node; a longer range has the children \<open>lower + 1\<close> (none if that sub-range
  is empty) and \<open>median\<close>, and its two sub-ranges are laid out in the same way.
\<close>

function shape_range ::
  "int \<Rightarrow> int \<Rightarrow> 'd CUDA_VPNode list \<Rightarrow> nat \<Rightarrow> nat \<Rightarrow> bool" where
  "shape_range ld rd nodes lower upper =
     (if upper \<le> lower then True
      else index (nodes ! lower) = int lower \<and>
        (if upper - lower > 1 then
           (let median = (upper + lower) div 2 in
              left (nodes ! lower) = (if median \<noteq> lower + 1 then int lower + 1 else - 1) \<and>
              right (nodes ! lower) = int median \<and>
              shape_range ld rd nodes (lower + 1) median \<and>
              shape_range ld rd nodes median upper)
         else left (nodes ! lower) = ld \<and> right (nodes ! lower) = rd))"
  by pat_completeness auto
termination
  by (relation "measure (\<lambda>(ld, rd, nodes, lower, upper). upper - lower)") auto

declare shape_range.simps [simp del]




subsection \<open>Trees in a node table\<close>


inductive depth_le :: "'d CUDA_VPNode list \<Rightarrow> int \<Rightarrow> nat \<Rightarrow> bool" for nodes where
  depth_none: "depth_le nodes (- 1) h"
| depth_node: "0 \<le> i \<Longrightarrow> i < int (length nodes) \<Longrightarrow>
     depth_le nodes (left (nodes ! nat i)) h \<Longrightarrow>
     depth_le nodes (right (nodes ! nat i)) h \<Longrightarrow> depth_le nodes i (Suc h)"


text \<open>
  The number of levels of the tree that the builder lays out on \<open>n\<close> points: the larger
  sub-range of a range of \<open>n\<close> points, the right one, has \<open>(n + 1) div 2\<close> points.
\<close>

function levels :: "nat \<Rightarrow> nat" where
  "levels n = (if n \<le> 1 then n else Suc (levels ((n + 1) div 2)))"
  by pat_completeness auto
termination
  by (relation "measure (\<lambda>n. n)") auto

declare levels.simps [simp del]

subsection \<open>A small point set\<close>






section \<open>The default metric: what it computes\<close>

lemma fold_overwrite:
  "0 < n \<Longrightarrow> fold (\<lambda>i total. f i) [0..<n] z = f (n - 1)"
  by (cases n) simp_all

lemma round_half_even_of_int: "round_half_even (of_int n) = n"
  by (simp add: round_half_even_def)

lemma round_to_double_power2:
  assumes k: "k \<le> 1023"
  shows "round_to_double (2 ^ k) = Finite (2 ^ k)"
proof -
  have "(2::real) ^ k \<le> 2 ^ 1023" using k by (intro power_increasing) simp_all
  also have "(2::real) ^ 1023 < 2 ^ 1024 - 2 ^ 970" by simp
  finally have small: "\<not> 2 ^ 1024 - 2 ^ 970 \<le> (2::real) ^ k" by simp
  have pos: "(0::real) < 2 ^ k" by simp
  have e: "max \<lfloor>log 2 \<bar>(2::real) ^ k\<bar>\<rfloor> (- 1022) = int k" by simp
  have q: "(2::real) ^ k / pow2 (int k - 52) = of_int (2 ^ 52)"
  proof (cases "52 \<le> k")
    case True
    then have "pow2 (int k - 52) = 2 ^ (k - 52)"
      by (simp add: pow2_def nat_diff_distrib)
    moreover have "(2::real) ^ k = 2 ^ (k - 52) * 2 ^ 52"
      using True power_add [of "2::real" "k - 52" 52] by simp
    ultimately show ?thesis by simp
  next
    case False
    then have "pow2 (int k - 52) = 1 / 2 ^ (52 - k)"
      by (simp add: pow2_def nat_diff_distrib)
    moreover have "(2::real) ^ k * 2 ^ (52 - k) = 2 ^ 52"
      using False power_add [of "2::real" k "52 - k"] by simp
    ultimately show ?thesis by simp
  qed
  have r: "of_int (round_half_even ((2::real) ^ k / pow2 (int k - 52))) * pow2 (int k - 52)
             = 2 ^ k"
  proof -
    have "pow2 (int k - 52) \<noteq> 0" by (simp add: pow2_def)
    then have "(2::real) ^ k = of_int (2 ^ 52) * pow2 (int k - 52)"
      using q by (simp add: field_simps)
    then show ?thesis unfolding q round_half_even_of_int by simp
  qed
  have "- (2 ^ 1024 - 2 ^ 970) < (0::real)" by simp
  with pos have nneg: "\<not> (2::real) ^ k \<le> - (2 ^ 1024 - 2 ^ 970)" by linarith
  have nz: "((2::real) ^ k = 0) = False" by simp
  show ?thesis
    unfolding round_to_double_def Let_def e r
    by (simp only: small nneg nz if_False)
qed

text \<open>
  C3, as far as it holds: for a positive dimension count both default distance functions
  return the root of the square of the difference of the last coordinates, each step in
  the arithmetic of doubles, whatever the other coordinates are; in IEEE arithmetic the
  distance between (0,0) and (3,4) is 4.
\<close>

theorem euclidean_distance_last_coordinate:
  "(0 < DIM \<longrightarrow>
      euclidean_distance ops DIM a b =
        fsqrt ops (fmul ops (fsub ops (b ! (DIM - 1)) (a ! (DIM - 1)))
                            (fsub ops (b ! (DIM - 1)) (a ! (DIM - 1)))) \<and>
      gpu_euclidean_distance ops DIM a b =
        fsqrt ops (fmul ops (fsub ops (b ! (DIM - 1)) (a ! (DIM - 1)))
                            (fsub ops (b ! (DIM - 1)) (a ! (DIM - 1))))) \<and>
   euclidean_distance ieee_ops 2 [Finite 0, Finite 0] [Finite 3, Finite 4] = Finite 4 \<and>
   gpu_euclidean_distance ieee_ops 2 [Finite 0, Finite 0] [Finite 3, Finite 4] = Finite 4"
proof -
  have p2: "round_to_double 4 = Finite 4" "round_to_double 16 = Finite 16"
    using round_to_double_power2 [of 2] round_to_double_power2 [of 4] by simp_all
  have "ieee_sqrt (ieee_mul (ieee_sub (Finite 4) (Finite 0)) (ieee_sub (Finite 4) (Finite 0)))
          = Finite 4"
    by (simp add: p2)
  then show ?thesis
    by (simp add: euclidean_distance_def gpu_euclidean_distance_def fold_overwrite
        ieee_ops_def)
qed

theorem euclidean_distance_last_coordinate_witness:
  "(0::nat) < 3 \<and>
   euclidean_distance ieee_ops 3 [Finite 1, Finite 2, Finite 8] [Finite 7, Finite 9, Finite 8]
     = Finite 0 \<and>
   gpu_euclidean_distance ieee_ops 3 [Finite 1, Finite 2, Finite 8] [Finite 7, Finite 9, Finite 8]
     = Finite 0"
  using euclidean_distance_last_coordinate
          [of 3 ieee_ops "[Finite 1, Finite 2, Finite 8]" "[Finite 7, Finite 9, Finite 8]"]
  by (simp add: ieee_ops_def round_to_double_def)

text \<open>
  The value is not always the absolute difference of the last coordinates: for (0,0) and
  (0, 2^600) the square overflows and the distance is infinite, while the difference of
  the last coordinates is the double 2^600.
\<close>

theorem euclidean_distance_overflow:
  "euclidean_distance ieee_ops 2 [Finite 0, Finite 0] [Finite 0, Finite (2 ^ 600)]
     = PlusInfinity \<and>
   gpu_euclidean_distance ieee_ops 2 [Finite 0, Finite 0] [Finite 0, Finite (2 ^ 600)]
     = PlusInfinity \<and>
   ieee_fabs (ieee_sub (Finite (2 ^ 600)) (Finite 0)) = Finite (2 ^ 600) \<and>
   \<bar>(2::real) ^ 600 - 0\<bar> = 2 ^ 600"
proof -
  define x :: real where "x = 2 ^ 600"
  have rx: "round_to_double x = Finite x"
    unfolding x_def by (rule round_to_double_power2) simp
  have "2 ^ 1024 - 2 ^ 970 \<le> x * x" unfolding x_def by simp
  then have m: "round_to_double (x * x) = PlusInfinity"
    by (simp add: round_to_double_def)
  have 1: "euclidean_distance ieee_ops 2 [Finite 0, Finite 0] [Finite 0, Finite x]
     = PlusInfinity"
    by (simp add: euclidean_distance_def fold_overwrite ieee_ops_def rx m)
  have 2: "gpu_euclidean_distance ieee_ops 2 [Finite 0, Finite 0] [Finite 0, Finite x]
     = PlusInfinity"
    by (simp add: gpu_euclidean_distance_def fold_overwrite ieee_ops_def rx m)
  have 3: "ieee_fabs (ieee_sub (Finite x) (Finite 0)) = Finite x"
    using rx by (simp add: x_def)
  have 4: "\<bar>x - 0\<bar> = x" by (simp add: x_def)
  from 1 2 3 4 show ?thesis unfolding x_def by blast
qed

section \<open>The builder: loop and recursion\<close>


section \<open>Slices, swaps and permutations of a range\<close>



lemma median_bounds:
  "upper - lower > 1 \<Longrightarrow> lower + 1 \<le> (upper + lower) div 2 \<and> (upper + lower) div 2 < upper"
  for lower upper :: nat
  by auto

lemma length_slice: "b \<le> length xs \<Longrightarrow> length (slice xs a b) = b - a"
  by (simp add: slice_def)

lemma nth_slice: "b \<le> length xs \<Longrightarrow> k < b - a \<Longrightarrow> slice xs a b ! k = xs ! (a + k)"
  by (simp add: slice_def)




lemma slice_single: "a < length xs \<Longrightarrow> slice xs a (a + 1) = [xs ! a]"
  by (rule nth_equalityI) (simp_all add: length_slice nth_slice)

lemma length_swap [simp]: "length (swap xs a b) = length xs"
  by (simp add: swap_def)










section \<open>The builder: the node table\<close>







section \<open>The builder: the points and the thresholds\<close>


section \<open>The builder: the tree in the table\<close>


lemma shape_unfold_big:
  assumes "upper - lower > 1" and "shape_range ld rd nodes lower upper"
  shows "index (nodes ! lower) = int lower \<and>
   left (nodes ! lower) = (if (upper + lower) div 2 \<noteq> lower + 1 then int lower + 1 else - 1) \<and>
   right (nodes ! lower) = int ((upper + lower) div 2) \<and>
   shape_range ld rd nodes (lower + 1) ((upper + lower) div 2) \<and>
   shape_range ld rd nodes ((upper + lower) div 2) upper"
proof -
  have n: "\<not> upper \<le> lower" using assms(1) by simp
  from assms(2) show ?thesis
    by (subst (asm) shape_range.simps) (simp only: n assms(1) if_False if_True Let_def)
qed

lemma shape_unfold_single:
  "upper = lower + 1 \<Longrightarrow> shape_range ld rd nodes lower upper \<Longrightarrow>
   index (nodes ! lower) = int lower \<and> left (nodes ! lower) = ld \<and> right (nodes ! lower) = rd"
  by (subst (asm) shape_range.simps) simp





lemma depth_le_mono: "depth_le nodes i h \<Longrightarrow> h \<le> h' \<Longrightarrow> depth_le nodes i h'"
proof (induction arbitrary: h' rule: depth_le.induct)
  case (depth_none h)
  show ?case by (rule depth_le.depth_none)
next
  case (depth_node i h)
  then obtain g where g: "h' = Suc g" "h \<le> g" by (cases h') auto
  show ?case unfolding g(1)
    using depth_node.hyps(1,2) depth_node.IH g(2) by (intro depth_le.depth_node) auto
qed

lemma depth_shape:
  "shape_range (- 1) (- 1) nodes lower upper \<Longrightarrow> lower < upper \<Longrightarrow> upper \<le> length nodes \<Longrightarrow>
   depth_le nodes (int lower) (upper - lower)"
proof (induction "- 1 :: int" "- 1 :: int" nodes lower upper rule: shape_range.induct)
  case (1 nodes lower upper)
  have lo: "0 \<le> int lower" "int lower < int (length nodes)" using "1.prems" by auto
  obtain g where g: "upper - lower = Suc g" using "1.prems"(2) by (cases "upper - lower") auto
  show ?case
  proof (cases "upper - lower > 1")
    case True
    note sh = shape_unfold_big [OF True "1.prems"(1)]
    have nu: "\<not> upper \<le> lower" using True by simp
    let ?m = "(upper + lower) div 2"
    have mb: "lower + 1 \<le> ?m" "?m < upper" using median_bounds [OF True] by auto
    have r: "depth_le nodes (int ?m) g"
    proof -
      have "depth_le nodes (int ?m) (upper - ?m)"
        using sh mb "1.prems" by (intro "1.hyps"(2) [OF nu True refl]) auto
      then show ?thesis by (rule depth_le_mono) (use g mb in auto)
    qed
    have l: "depth_le nodes (left (nodes ! lower)) g"
    proof (cases "?m = lower + 1")
      case True
      then show ?thesis using sh by (simp add: depth_none)
    next
      case False
      have "depth_le nodes (int (lower + 1)) (?m - (lower + 1))"
        using sh mb "1.prems" False by (intro "1.hyps"(1) [OF nu True refl]) auto
      then have "depth_le nodes (int (lower + 1)) g"
        by (rule depth_le_mono) (use g mb in auto)
      moreover have "left (nodes ! lower) = int (lower + 1)" using sh False by simp
      ultimately show ?thesis by simp
    qed
    show ?thesis unfolding g
      using lo l r sh by (intro depth_node) auto
  next
    case False
    then have u: "upper = lower + 1" using "1.prems" by auto
    note sh = shape_unfold_single [OF u "1.prems"(1)]
    show ?thesis unfolding g
      using lo sh by (intro depth_node) (auto simp: depth_none)
  qed
qed



section \<open>The builder: the number of levels and the size limit\<close>

lemma levels_mono: "m \<le> n \<Longrightarrow> levels m \<le> levels n"
proof (induction n arbitrary: m rule: levels.induct)
  case (1 n)
  show ?case
  proof (cases "n \<le> 1")
    case True
    then show ?thesis using "1.prems" by (subst (1 2) levels.simps) simp
  next
    case False
    show ?thesis
    proof (cases "m \<le> 1")
      case True
      then show ?thesis using False by (subst (1 2) levels.simps) simp
    next
      case m: False
      have "levels ((m + 1) div 2) \<le> levels ((n + 1) div 2)"
        using "1.prems" False by (intro "1.IH") simp_all
      then show ?thesis using False m by (subst (1 2) levels.simps) simp
    qed
  qed
qed

lemma levels_bound: "n \<le> 2 ^ k \<Longrightarrow> levels n \<le> Suc k"
proof (induction k arbitrary: n)
  case 0
  then show ?case by (subst levels.simps) simp
next
  case (Suc k)
  show ?case
  proof (cases "n \<le> 1")
    case True
    then show ?thesis by (subst levels.simps) simp
  next
    case False
    have "(n + 1) div 2 \<le> 2 ^ k" using Suc.prems by simp
    from Suc.IH [OF this] show ?thesis using False by (subst levels.simps) simp
  qed
qed

lemma depth_shape_levels:
  "shape_range (- 1) (- 1) nodes lower upper \<Longrightarrow> lower < upper \<Longrightarrow> upper \<le> length nodes \<Longrightarrow>
   depth_le nodes (int lower) (levels (upper - lower))"
proof (induction "- 1 :: int" "- 1 :: int" nodes lower upper rule: shape_range.induct)
  case (1 nodes lower upper)
  have lo: "0 \<le> int lower" "int lower < int (length nodes)" using "1.prems" by auto
  show ?case
  proof (cases "upper - lower > 1")
    case True
    note sh = shape_unfold_big [OF True "1.prems"(1)]
    have nu: "\<not> upper \<le> lower" using True by simp
    let ?m = "(upper + lower) div 2"
    let ?g = "levels ((upper - lower + 1) div 2)"
    have mb: "lower + 1 \<le> ?m" "?m < upper" using median_bounds [OF True] by auto
    have lv: "levels (upper - lower) = Suc ?g"
      using True by (subst levels.simps) simp
    have r: "depth_le nodes (int ?m) ?g"
    proof -
      have "depth_le nodes (int ?m) (levels (upper - ?m))"
        using sh mb "1.prems" by (intro "1.hyps"(2) [OF nu True refl]) auto
      moreover have "upper - ?m = (upper - lower + 1) div 2" using True by linarith
      ultimately show ?thesis by simp
    qed
    have l: "depth_le nodes (left (nodes ! lower)) ?g"
    proof (cases "?m = lower + 1")
      case True
      then show ?thesis using sh by (simp add: depth_none)
    next
      case False
      have "depth_le nodes (int (lower + 1)) (levels (?m - (lower + 1)))"
        using sh mb "1.prems" False by (intro "1.hyps"(1) [OF nu True refl]) auto
      moreover have "levels (?m - (lower + 1)) \<le> ?g"
        using True by (intro levels_mono) linarith
      ultimately have "depth_le nodes (int (lower + 1)) ?g"
        by (rule depth_le_mono)
      moreover have "left (nodes ! lower) = int (lower + 1)" using sh False by simp
      ultimately show ?thesis by simp
    qed
    show ?thesis unfolding lv
      using lo l r sh by (intro depth_node) auto
  next
    case False
    then have u: "upper = lower + 1" using "1.prems" by auto
    note sh = shape_unfold_single [OF u "1.prems"(1)]
    have lv: "levels (upper - lower) = Suc 0" using u by (subst levels.simps) simp
    show ?thesis unfolding lv
      using lo sh by (intro depth_node) (auto simp: depth_none)
  qed
qed




section \<open>The builder: \<open>buildFromPoints\<close>\<close>





section \<open>The builder: the claims\<close>











end
